theory Spec2Isabelle
  imports Complex_Main "HOL-Library.AList"
begin

section \<open>PythonAudioRoute: a shallow embedding of the capture strips and the master mixer\<close>

text \<open>
  The development follows \<^verbatim>\<open>PythonAudioRoute.py\<close>. Samples are \<^verbatim>\<open>float32\<close> in the
  program and real numbers here, so rounding, infinities and NaN are outside the model.
  The \<^verbatim>\<open>print\<close> calls write to the console only and are left out.
\<close>

subsection \<open>Audio configuration\<close>

definition SAMPLE_RATE :: nat where
  "SAMPLE_RATE = 44100"

definition BLOCK_SIZE :: nat where
  "BLOCK_SIZE = 1024"

definition CHANNELS :: nat where
  "CHANNELS = 2"

subsection \<open>Two-dimensional arrays of samples\<close>

text \<open>
  A numpy array of shape \<open>(shape0, shape1)\<close> with its samples in row-major order. An
  array is well formed when it holds \<open>shape0 * shape1\<close> samples.
\<close>

record ndarray =
  shape0 :: nat
  shape1 :: nat
  data :: "real list"

datatype py_error = ValueError | Empty

definition ndarray_ok :: "ndarray \<Rightarrow> bool" where
  "ndarray_ok a = (length (data a) = shape0 a * shape1 a)"

definition len :: "ndarray \<Rightarrow> nat" where
  "len a = shape0 a"

definition np_full :: "nat \<Rightarrow> nat \<Rightarrow> real \<Rightarrow> ndarray" where
  "np_full r c v = \<lparr>shape0 = r, shape1 = c, data = replicate (r * c) v\<rparr>"

definition np_zeros :: "nat \<Rightarrow> nat \<Rightarrow> ndarray" where
  "np_zeros r c = np_full r c 0"

text \<open>\<^verbatim>\<open>data * self.volume\<close>: every sample times a scalar, the shape kept.\<close>

definition np_mul :: "ndarray \<Rightarrow> real \<Rightarrow> ndarray" where
  "np_mul a g = a\<lparr>data := map (\<lambda>x. x * g) (data a)\<rparr>"

text \<open>\<^verbatim>\<open>np.clip(a, lo, hi, out=a)\<close> is \<open>minimum(hi, maximum(a, lo))\<close> on every sample.\<close>

definition np_clip :: "ndarray \<Rightarrow> real \<Rightarrow> real \<Rightarrow> ndarray" where
  "np_clip a lo hi = a\<lparr>data := map (\<lambda>x. min hi (max x lo)) (data a)\<rparr>"

text \<open>
  Broadcasting of the right operand of \<^verbatim>\<open>a += b\<close> to the shape of \<open>a\<close>: along each
  axis the extents are equal or the operand's extent is 1, and anything else raises
  \<^verbatim>\<open>ValueError\<close>.
\<close>

definition broadcast_cols :: "nat \<Rightarrow> ndarray \<Rightarrow> py_error + real list" where
  "broadcast_cols c b =
     (if shape1 b = c then Inr (data b)
      else if shape1 b = 1 then Inr (concat (map (replicate c) (data b)))
      else Inl ValueError)"

definition broadcast_to :: "nat \<Rightarrow> nat \<Rightarrow> ndarray \<Rightarrow> py_error + real list" where
  "broadcast_to r c b =
     (case broadcast_cols c b of
        Inl e \<Rightarrow> Inl e
      | Inr xs \<Rightarrow>
          if shape0 b = r then Inr xs
          else if shape0 b = 1 then Inr (concat (replicate r xs))
          else Inl ValueError)"

definition np_iadd :: "ndarray \<Rightarrow> ndarray \<Rightarrow> py_error + ndarray" where
  "np_iadd a b =
     (case broadcast_to (shape0 a) (shape1 a) b of
        Inl e \<Rightarrow> Inl e
      | Inr ys \<Rightarrow> Inr (a\<lparr>data := map (\<lambda>(x, y). x + y) (zip (data a) ys)\<rparr>))"

subsection \<open>The bounded queue of the standard library\<close>

text \<open>
  \<^verbatim>\<open>queue.Queue(maxsize)\<close>: a FIFO that is full when \<open>0 < maxsize \<le> qsize\<close>.
  \<^verbatim>\<open>get_nowait\<close> raises \<^verbatim>\<open>Empty\<close> on an empty queue. \<^verbatim>\<open>put\<close> with its default
  arguments waits while the queue is full; in a sequential run nobody makes room, so
  the call that would wait is the value \<open>None\<close>.
\<close>

record 'a Queue =
  maxsize :: int
  items :: "'a list"

definition Queue_init :: "int \<Rightarrow> 'a Queue" where
  "Queue_init m = \<lparr>maxsize = m, items = []\<rparr>"

definition qsize :: "'a Queue \<Rightarrow> nat" where
  "qsize q = length (items q)"

definition full :: "'a Queue \<Rightarrow> bool" where
  "full q = (0 < maxsize q \<and> maxsize q \<le> int (qsize q))"

definition empty_q :: "'a Queue \<Rightarrow> bool" where
  "empty_q q = (qsize q = 0)"

definition get_nowait :: "'a Queue \<Rightarrow> py_error + ('a \<times> 'a Queue)" where
  "get_nowait q =
     (case items q of
        [] \<Rightarrow> Inl Empty
      | x # xs \<Rightarrow> Inr (x, q\<lparr>items := xs\<rparr>))"

definition put :: "'a Queue \<Rightarrow> 'a \<Rightarrow> 'a Queue option" where
  "put q x = (if full q then None else Some (q\<lparr>items := items q @ [x]\<rparr>))"

definition clear :: "'a Queue \<Rightarrow> 'a Queue" where
  "clear q = q\<lparr>items := []\<rparr>"

subsection \<open>The widgets a strip reads\<close>

text \<open>
  A \<^verbatim>\<open>QSlider\<close> keeps its value inside its range: \<^verbatim>\<open>setValue\<close> bounds the argument
  by minimum and maximum, and \<^verbatim>\<open>setRange\<close> bounds the current value again.
\<close>

record QSlider =
  minimum :: int
  maximum :: int
  sl_value :: int

definition QSlider_init :: QSlider where
  "QSlider_init = \<lparr>minimum = 0, maximum = 99, sl_value = 0\<rparr>"

definition qBound :: "int \<Rightarrow> int \<Rightarrow> int \<Rightarrow> int" where
  "qBound lo v hi = max lo (min hi v)"

definition setValue :: "QSlider \<Rightarrow> int \<Rightarrow> QSlider" where
  "setValue sl v = sl\<lparr>sl_value := qBound (minimum sl) v (maximum sl)\<rparr>"

definition setRange :: "QSlider \<Rightarrow> int \<Rightarrow> int \<Rightarrow> QSlider" where
  "setRange sl lo hi =
     (let hi' = max lo hi
      in sl\<lparr>minimum := lo, maximum := hi', sl_value := qBound lo (sl_value sl) hi'\<rparr>)"

text \<open>
  A \<^verbatim>\<open>QComboBox\<close>: the user data of its entries in order, and the current index.
  \<^verbatim>\<open>currentData\<close> is \<^verbatim>\<open>None\<close> when the entry carries none (or there is no entry).
\<close>

record QComboBox =
  item_data :: "nat option list"
  current_index :: nat

definition currentData :: "QComboBox \<Rightarrow> nat option" where
  "currentData cb =
     (if current_index cb < length (item_data cb) then item_data cb ! current_index cb
      else None)"

text \<open>A device as \<^verbatim>\<open>sd.query_devices()\<close> lists it.\<close>

record device =
  name :: string
  max_input_channels :: nat
  max_output_channels :: nat

subsection \<open>The input strip\<close>

record AudioInputStrip =
  index :: nat
  stream :: "nat option"
  audio_queue :: "ndarray Queue"
  volume :: real
  is_active :: bool
  device_combo :: QComboBox
  slider :: QSlider

text \<open>\<^verbatim>\<open>populate_devices\<close>: the entry without a device first, then every input device.\<close>

definition populate_devices :: "device list \<Rightarrow> QComboBox" where
  "populate_devices devices =
     \<lparr>item_data = None # map (\<lambda>(i, dev). Some i)
                       (filter (\<lambda>(i, dev). max_input_channels dev > 0)
                          (zip [0 ..< length devices] devices)),
      current_index = 0\<rparr>"

definition AudioInputStrip_init :: "device list \<Rightarrow> nat \<Rightarrow> AudioInputStrip" where
  "AudioInputStrip_init devices i =
     \<lparr>index = i, stream = None, audio_queue = Queue_init 10, volume = 1, is_active = False,
      device_combo = populate_devices devices,
      slider = setValue (setRange QSlider_init 0 100) 100\<rparr>"

definition update_volume :: "AudioInputStrip \<Rightarrow> AudioInputStrip" where
  "update_volume s = s\<lparr>volume := real_of_int (sl_value (slider s)) / 100\<rparr>"

text \<open>
  \<^verbatim>\<open>audio_callback\<close>: when the queue is full the oldest block is taken out (an
  \<^verbatim>\<open>Empty\<close> there is swallowed), then the block is put.
\<close>

definition audio_callback :: "AudioInputStrip \<Rightarrow> ndarray \<Rightarrow> AudioInputStrip option" where
  "audio_callback s indata =
     (let q = (if full (audio_queue s)
               then (case get_nowait (audio_queue s) of
                       Inl e \<Rightarrow> audio_queue s
                     | Inr (x, q') \<Rightarrow> q')
               else audio_queue s)
      in case put q indata of
           None \<Rightarrow> None
         | Some q' \<Rightarrow> Some (s\<lparr>audio_queue := q'\<rparr>))"

text \<open>\<^verbatim>\<open>get_audio_chunk\<close> returns the chunk and the strip with its queue as left.\<close>

definition get_audio_chunk :: "AudioInputStrip \<Rightarrow> ndarray \<times> AudioInputStrip" where
  "get_audio_chunk s =
     (if \<not> is_active s \<or> empty_q (audio_queue s) then (np_zeros BLOCK_SIZE CHANNELS, s)
      else case get_nowait (audio_queue s) of
             Inr (d, q') \<Rightarrow> (np_mul d (volume s), s\<lparr>audio_queue := q'\<rparr>)
           | Inl e \<Rightarrow> (np_zeros BLOCK_SIZE CHANNELS, s))"

text \<open>A run of captured blocks, and a run of requests for the next chunk.\<close>

fun pushes :: "AudioInputStrip \<Rightarrow> ndarray list \<Rightarrow> AudioInputStrip option" where
  "pushes s [] = Some s"
| "pushes s (b # bs) =
     (case audio_callback s b of
        None \<Rightarrow> None
      | Some s' \<Rightarrow> pushes s' bs)"


subsection \<open>The audio driver and the message boxes\<close>

text \<open>
  What the program shares with its surroundings: the streams the driver holds open
  (by handle), those of them that are running, and the message boxes shown so far
  (title and text). How the driver answers an attempt to open a device is a
  parameter of the operations that open one.
\<close>

datatype open_outcome = Opened | OpenFails string | StartFails string

record env =
  next_handle :: nat
  open_streams :: "nat list"
  active_streams :: "nat list"
  dialogs :: "(string \<times> string) list"

definition env_init :: env where
  "env_init = \<lparr>next_handle = 0, open_streams = [], active_streams = [], dialogs = []\<rparr>"

text \<open>
  The constructor of \<^verbatim>\<open>sd.InputStream\<close> and \<^verbatim>\<open>sd.OutputStream\<close>: it raises and
  leaves nothing open, or it returns the handle of a stream that is open and not running.
\<close>

definition sd_Stream :: "(nat \<Rightarrow> open_outcome) \<Rightarrow> nat \<Rightarrow> env \<Rightarrow> string + (nat \<times> env)" where
  "sd_Stream drv device e =
     (case drv device of
        OpenFails msg \<Rightarrow> Inl msg
      | _ \<Rightarrow> Inr (next_handle e,
                 e\<lparr>next_handle := Suc (next_handle e),
                   open_streams := open_streams e @ [next_handle e]\<rparr>))"

definition sd_start :: "(nat \<Rightarrow> open_outcome) \<Rightarrow> nat \<Rightarrow> nat \<Rightarrow> env \<Rightarrow> string + env" where
  "sd_start drv device h e =
     (case drv device of
        StartFails msg \<Rightarrow> Inl msg
      | _ \<Rightarrow> Inr (e\<lparr>active_streams := active_streams e @ [h]\<rparr>))"

text \<open>\<^verbatim>\<open>stop\<close> and \<^verbatim>\<open>close\<close> ignore the driver's errors (their default).\<close>

definition sd_stop :: "nat \<Rightarrow> env \<Rightarrow> env" where
  "sd_stop h e = e\<lparr>active_streams := removeAll h (active_streams e)\<rparr>"

definition sd_close :: "nat \<Rightarrow> env \<Rightarrow> env" where
  "sd_close h e =
     e\<lparr>open_streams := removeAll h (open_streams e),
       active_streams := removeAll h (active_streams e)\<rparr>"

definition QMessageBox_critical :: "string \<Rightarrow> string \<Rightarrow> env \<Rightarrow> env" where
  "QMessageBox_critical title text e = e\<lparr>dialogs := dialogs e @ [(title, text)]\<rparr>"

subsection \<open>Starting and stopping the capture stream\<close>

definition stop_stream :: "AudioInputStrip \<times> env \<Rightarrow> AudioInputStrip \<times> env" where
  "stop_stream w =
     (let s1 = (fst w)\<lparr>is_active := False\<rparr>;
          (s2, e2) = (case stream s1 of
                        None \<Rightarrow> (s1, snd w)
                      | Some h \<Rightarrow> (s1\<lparr>stream := None\<rparr>, sd_close h (sd_stop h (snd w))))
      in (s2\<lparr>audio_queue := clear (audio_queue s2)\<rparr>, e2))"

text \<open>
  The body of the \<^verbatim>\<open>try\<close> of \<^verbatim>\<open>start_stream\<close>: the message of the exception, if
  one was raised, and the state at that point. A constructor that raises assigns
  nothing to \<^verbatim>\<open>self.stream\<close>; a \<^verbatim>\<open>start\<close> that raises comes after the assignment.
\<close>

definition open_input ::
  "(nat \<Rightarrow> open_outcome) \<Rightarrow> nat \<Rightarrow> AudioInputStrip \<times> env \<Rightarrow> string option \<times> AudioInputStrip \<times> env" where
  "open_input drv device_idx w =
     (case sd_Stream drv device_idx (snd w) of
        Inl msg \<Rightarrow> (Some msg, w)
      | Inr (h, e2) \<Rightarrow>
          (let s2 = (fst w)\<lparr>stream := Some h\<rparr>
           in case sd_start drv device_idx h e2 of
                Inl msg \<Rightarrow> (Some msg, s2, e2)
              | Inr e3 \<Rightarrow> (None, s2\<lparr>is_active := True\<rparr>, e3)))"

definition input_error_text :: "string \<Rightarrow> string" where
  "input_error_text msg = ''Could not open input device:'' @ [CHR 0x0A] @ msg"

text \<open>
  \<^verbatim>\<open>start_stream\<close> is connected to \<^verbatim>\<open>currentIndexChanged\<close> of the device selector, so
  the \<^verbatim>\<open>setCurrentIndex(0)\<close> of its \<^verbatim>\<open>except\<close> branch runs \<^verbatim>\<open>start_stream\<close> again
  whenever it changes the index.
\<close>

function start_stream ::
  "(nat \<Rightarrow> open_outcome) \<Rightarrow> AudioInputStrip \<times> env \<Rightarrow> AudioInputStrip \<times> env" where
  "start_stream drv w =
     (let w1 = stop_stream w
      in case currentData (device_combo (fst w1)) of
           None \<Rightarrow> w1
         | Some device_idx \<Rightarrow>
             (case open_input drv device_idx w1 of
                (None, w2) \<Rightarrow> w2
              | (Some msg, w2) \<Rightarrow>
                  (let e3 = QMessageBox_critical ''Audio Error'' (input_error_text msg) (snd w2)
                   in if current_index (device_combo (fst w2)) = 0 then (fst w2, e3)
                      else start_stream drv
                             ((fst w2)\<lparr>device_combo := (device_combo (fst w2))\<lparr>current_index := 0\<rparr>\<rparr>,
                              e3))))"
  by pat_completeness auto

text \<open>
  The call made again starts from index 0, and it is made only when the index was
  not 0: neither stopping nor trying to open touches the selector.
\<close>

lemma stop_stream_combo: "device_combo (fst (stop_stream w)) = device_combo (fst w)"
  by (simp add: stop_stream_def Let_def split: option.splits prod.splits)

lemma open_input_combo: "device_combo (fst (snd (open_input drv d w))) = device_combo (fst w)"
  by (simp add: open_input_def Let_def split: sum.splits prod.splits)

lemma start_stream_decreases:
  assumes "(Some z, y) = open_input drv d (stop_stream w)"
    and "current_index (device_combo (fst y)) \<noteq> 0"
  shows "0 < current_index (device_combo (fst w))"
proof -
  from assms(1) have "y = snd (open_input drv d (stop_stream w))"
    by (metis snd_conv)
  then have "device_combo (fst y) = device_combo (fst w)"
    by (simp add: open_input_combo stop_stream_combo)
  with assms(2) show ?thesis by simp
qed

termination start_stream
  by (relation "measure (\<lambda>(drv, w). current_index (device_combo (fst w)))")
    (auto dest: start_stream_decreases)

declare start_stream.simps [simp del]

text \<open>The user picks entry \<open>i\<close> of the device selector; a change of index starts the stream.\<close>

definition select_device ::
  "nat \<Rightarrow> (nat \<Rightarrow> open_outcome) \<Rightarrow> AudioInputStrip \<times> env \<Rightarrow> AudioInputStrip \<times> env" where
  "select_device i drv w =
     (if i = current_index (device_combo (fst w)) \<or> length (item_data (device_combo (fst w))) \<le> i
      then w
      else start_stream drv ((fst w)\<lparr>device_combo := (device_combo (fst w))\<lparr>current_index := i\<rparr>\<rparr>,
                             snd w))"

text \<open>The slider is set to \<open>v\<close>; a change of its value runs \<^verbatim>\<open>update_volume\<close>.\<close>

definition move_slider :: "int \<Rightarrow> AudioInputStrip \<Rightarrow> AudioInputStrip" where
  "move_slider v s =
     (let sl = setValue (slider s) v
      in if sl_value sl = sl_value (slider s) then s
         else update_volume (s\<lparr>slider := sl\<rparr>))"

subsection \<open>The application: the registry of strips and the master output\<close>

text \<open>
  \<^verbatim>\<open>input_strips\<close> is a list of objects; each strip is kept with the reference that
  identifies it, since \<^verbatim>\<open>in\<close> and \<^verbatim>\<open>remove\<close> compare widgets by identity.
\<close>

record AudioRouterApp =
  input_strips :: "(nat \<times> AudioInputStrip) list"
  output_stream :: "nat option"
  out_combo :: QComboBox
  next_ref :: nat

definition populate_output_devices :: "device list \<Rightarrow> QComboBox" where
  "populate_output_devices devices =
     \<lparr>item_data = None # map (\<lambda>(i, dev). Some i)
                       (filter (\<lambda>(i, dev). max_output_channels dev > 0)
                          (zip [0 ..< length devices] devices)),
      current_index = 0\<rparr>"

definition AudioRouterApp_init :: "device list \<Rightarrow> AudioRouterApp" where
  "AudioRouterApp_init devices =
     \<lparr>input_strips = [], output_stream = None,
      out_combo = populate_output_devices devices, next_ref = 0\<rparr>"

definition add_input_strip :: "device list \<Rightarrow> AudioRouterApp \<Rightarrow> AudioRouterApp" where
  "add_input_strip devices app =
     (let i = length (input_strips app);
          strip = AudioInputStrip_init devices i
      in app\<lparr>input_strips := input_strips app @ [(next_ref app, strip)],
             next_ref := Suc (next_ref app)\<rparr>)"

text \<open>\<^verbatim>\<open>list.remove\<close> takes out the first entry that is the given object.\<close>

fun list_remove :: "nat \<Rightarrow> (nat \<times> 'a) list \<Rightarrow> (nat \<times> 'a) list" where
  "list_remove r [] = []"
| "list_remove r ((k, v) # xs) = (if k = r then xs else (k, v) # list_remove r xs)"

definition remove_input_strip :: "nat \<Rightarrow> AudioRouterApp \<Rightarrow> AudioRouterApp" where
  "remove_input_strip r app =
     (if r \<in> set (map fst (input_strips app))
      then app\<lparr>input_strips := list_remove r (input_strips app)\<rparr>
      else app)"

text \<open>A method of the strip with reference \<open>r\<close>, run on the state of the application.\<close>

definition on_strip ::
  "nat \<Rightarrow> (AudioInputStrip \<times> env \<Rightarrow> AudioInputStrip \<times> env) \<Rightarrow> AudioRouterApp \<times> env \<Rightarrow> AudioRouterApp \<times> env" where
  "on_strip r f w =
     (case map_of (input_strips (fst w)) r of
        None \<Rightarrow> w
      | Some s \<Rightarrow>
          (let (s', e') = f (s, snd w)
           in ((fst w)\<lparr>input_strips := AList.update r s' (input_strips (fst w))\<rparr>, e')))"

text \<open>\<^verbatim>\<open>close_strip\<close>: stop the stream, leave the registry; the widget is deleted.\<close>

definition close_strip :: "nat \<Rightarrow> AudioRouterApp \<times> env \<Rightarrow> AudioRouterApp \<times> env" where
  "close_strip r w =
     (let (app1, e1) = on_strip r stop_stream w
      in (remove_input_strip r app1, e1))"

subsection \<open>The master mixer\<close>

text \<open>
  The loop of \<^verbatim>\<open>output_callback\<close> over the strips: every strip is asked for its chunk,
  and the chunk is added when \<^verbatim>\<open>len(chunk) == len(mixed_audio)\<close>. An addition that
  raises ends the loop there.
\<close>

fun mix_strips ::
  "(nat \<times> AudioInputStrip) list \<Rightarrow> ndarray \<Rightarrow> (nat \<times> AudioInputStrip) list \<times> (py_error + ndarray)" where
  "mix_strips [] mixed_audio = ([], Inr mixed_audio)"
| "mix_strips ((r, strip) # rest) mixed_audio =
     (let (chunk, strip') = get_audio_chunk strip
      in if len chunk = len mixed_audio
         then (case np_iadd mixed_audio chunk of
                 Inl e \<Rightarrow> ((r, strip') # rest, Inl e)
               | Inr mixed' \<Rightarrow>
                   (let (rest', res) = mix_strips rest mixed'
                    in ((r, strip') # rest', res)))
         else (let (rest', res) = mix_strips rest mixed_audio
               in ((r, strip') # rest', res)))"

text \<open>
  \<^verbatim>\<open>output_callback\<close>: the application after the pass, and what was written to
  \<^verbatim>\<open>outdata\<close> (or the exception that left the callback).
\<close>

definition output_callback :: "AudioRouterApp \<Rightarrow> nat \<Rightarrow> AudioRouterApp \<times> (py_error + ndarray)" where
  "output_callback app frames =
     (let mixed_audio = np_zeros frames CHANNELS;
          (strips', res) = mix_strips (input_strips app) mixed_audio
      in (app\<lparr>input_strips := strips'\<rparr>,
          case res of
            Inl e \<Rightarrow> Inl e
          | Inr mixed \<Rightarrow> Inr (np_clip mixed (-1) 1)))"

subsection \<open>Restarting the playback stream\<close>

definition close_output :: "AudioRouterApp \<times> env \<Rightarrow> AudioRouterApp \<times> env" where
  "close_output w =
     (case output_stream (fst w) of
        None \<Rightarrow> w
      | Some h \<Rightarrow> ((fst w)\<lparr>output_stream := None\<rparr>, sd_close h (sd_stop h (snd w))))"

definition open_output ::
  "(nat \<Rightarrow> open_outcome) \<Rightarrow> nat \<Rightarrow> AudioRouterApp \<times> env \<Rightarrow> string option \<times> AudioRouterApp \<times> env" where
  "open_output drv device_idx w =
     (case sd_Stream drv device_idx (snd w) of
        Inl msg \<Rightarrow> (Some msg, w)
      | Inr (h, e2) \<Rightarrow>
          (let app2 = (fst w)\<lparr>output_stream := Some h\<rparr>
           in case sd_start drv device_idx h e2 of
                Inl msg \<Rightarrow> (Some msg, app2, e2)
              | Inr e3 \<Rightarrow> (None, app2, e3)))"

definition output_error_text :: "string \<Rightarrow> string" where
  "output_error_text msg = ''Could not open output device:'' @ [CHR 0x0A] @ msg"

text \<open>
  \<^verbatim>\<open>restart_output_stream\<close> is connected to \<^verbatim>\<open>currentIndexChanged\<close> of the output
  selector, as \<^verbatim>\<open>start_stream\<close> is to the device selector of a strip.
\<close>

function restart_output_stream ::
  "(nat \<Rightarrow> open_outcome) \<Rightarrow> AudioRouterApp \<times> env \<Rightarrow> AudioRouterApp \<times> env" where
  "restart_output_stream drv w =
     (let w1 = close_output w
      in case currentData (out_combo (fst w1)) of
           None \<Rightarrow> w1
         | Some device_idx \<Rightarrow>
             (case open_output drv device_idx w1 of
                (None, w2) \<Rightarrow> w2
              | (Some msg, w2) \<Rightarrow>
                  (let e3 = QMessageBox_critical ''Output Error'' (output_error_text msg) (snd w2)
                   in if current_index (out_combo (fst w2)) = 0 then (fst w2, e3)
                      else restart_output_stream drv
                             ((fst w2)\<lparr>out_combo := (out_combo (fst w2))\<lparr>current_index := 0\<rparr>\<rparr>,
                              e3))))"
  by pat_completeness auto

lemma close_output_combo: "out_combo (fst (close_output w)) = out_combo (fst w)"
  by (simp add: close_output_def split: option.splits)

lemma open_output_combo: "out_combo (fst (snd (open_output drv d w))) = out_combo (fst w)"
  by (simp add: open_output_def Let_def split: sum.splits prod.splits)

lemma restart_output_decreases:
  assumes "(Some z, y) = open_output drv d (close_output w)"
    and "current_index (out_combo (fst y)) \<noteq> 0"
  shows "0 < current_index (out_combo (fst w))"
proof -
  from assms(1) have "y = snd (open_output drv d (close_output w))"
    by (metis snd_conv)
  then have "out_combo (fst y) = out_combo (fst w)"
    by (simp add: open_output_combo close_output_combo)
  with assms(2) show ?thesis by simp
qed

termination restart_output_stream
  by (relation "measure (\<lambda>(drv, w). current_index (out_combo (fst w)))")
    (auto dest: restart_output_decreases)

declare restart_output_stream.simps [simp del]

definition select_output ::
  "nat \<Rightarrow> (nat \<Rightarrow> open_outcome) \<Rightarrow> AudioRouterApp \<times> env \<Rightarrow> AudioRouterApp \<times> env" where
  "select_output i drv w =
     (if i = current_index (out_combo (fst w)) \<or> length (item_data (out_combo (fst w))) \<le> i
      then w
      else restart_output_stream drv
             ((fst w)\<lparr>out_combo := (out_combo (fst w))\<lparr>current_index := i\<rparr>\<rparr>, snd w))"

subsection \<open>What can happen to a running application\<close>

datatype event =
    AddInput "device list"
  | RemoveInput nat
  | DeviceChosen nat nat "nat \<Rightarrow> open_outcome"
  | SliderMoved nat int
  | Captured nat ndarray
  | Played nat
  | OutputChosen nat "nat \<Rightarrow> open_outcome"

text \<open>
  One event. A captured block goes to the strip whose stream delivered it; the result
  is \<open>None\<close> when that call would wait for room in the queue.
\<close>

definition capture :: "nat \<Rightarrow> ndarray \<Rightarrow> AudioRouterApp \<Rightarrow> AudioRouterApp option" where
  "capture r indata app =
     (case map_of (input_strips app) r of
        None \<Rightarrow> Some app
      | Some s \<Rightarrow>
          (case audio_callback s indata of
             None \<Rightarrow> None
           | Some s' \<Rightarrow> Some (app\<lparr>input_strips := AList.update r s' (input_strips app)\<rparr>)))"

fun step :: "event \<Rightarrow> AudioRouterApp \<times> env \<Rightarrow> (AudioRouterApp \<times> env) option" where
  "step (AddInput devices) w = Some (add_input_strip devices (fst w), snd w)"
| "step (RemoveInput r) w = Some (close_strip r w)"
| "step (DeviceChosen r i drv) w = Some (on_strip r (select_device i drv) w)"
| "step (SliderMoved r v) w = Some (on_strip r (\<lambda>(s, e). (move_slider v s, e)) w)"
| "step (Captured r indata) w =
     (case capture r indata (fst w) of
        None \<Rightarrow> None
      | Some app' \<Rightarrow> Some (app', snd w))"
| "step (Played frames) w = Some (fst (output_callback (fst w) frames), snd w)"
| "step (OutputChosen i drv) w = Some (select_output i drv w)"

fun run :: "event list \<Rightarrow> AudioRouterApp \<times> env \<Rightarrow> (AudioRouterApp \<times> env) option" where
  "run [] w = Some w"
| "run (ev # evs) w =
     (case step ev w of
        None \<Rightarrow> None
      | Some w' \<Rightarrow> run evs w')"

text \<open>Taking blocks out of a queue, at most \<open>n\<close> of them, until it is empty.\<close>

primrec retrieve :: "nat \<Rightarrow> 'a Queue \<Rightarrow> 'a list" where
  "retrieve 0 q = []"
| "retrieve (Suc n) q =
     (case get_nowait q of
        Inl e \<Rightarrow> []
      | Inr (x, q') \<Rightarrow> x # retrieve n q')"

subsection \<open>The mixing pass as the specification words it\<close>

definition np_shape :: "ndarray \<Rightarrow> nat \<times> nat" where
  "np_shape a = (shape0 a, shape1 a)"

text \<open>
  What a capture stream opened with \<open>CHANNELS\<close> channels delivers: a well-formed array
  with \<open>CHANNELS\<close> samples per frame. A strip is in order when its queue holds only such.
\<close>

definition block_ok :: "ndarray \<Rightarrow> bool" where
  "block_ok b = (ndarray_ok b \<and> shape1 b = CHANNELS)"

definition strip_ok :: "AudioInputStrip \<Rightarrow> bool" where
  "strip_ok s = (\<forall>b \<in> set (items (audio_queue s)). block_ok b)"

definition add_elementwise :: "ndarray \<Rightarrow> ndarray \<Rightarrow> ndarray" where
  "add_elementwise a b = a\<lparr>data := map2 (+) (data a) (data b)\<rparr>"

text \<open>
  Step 2 of the playback callback in the words of the specification: a block is added
  elementwise into the accumulator if its size equals the accumulator's size, and is
  skipped otherwise.
\<close>

fun mix_by_size :: "ndarray list \<Rightarrow> ndarray \<Rightarrow> ndarray" where
  "mix_by_size [] acc = acc"
| "mix_by_size (c # cs) acc =
     mix_by_size cs (if np_shape c = np_shape acc then add_elementwise acc c else acc)"

text \<open>The chunks the strips yield in one pass, and the strips after the pass.\<close>

definition yielded :: "(nat \<times> AudioInputStrip) list \<Rightarrow> ndarray list" where
  "yielded strips = map (\<lambda>(r, s). fst (get_audio_chunk s)) strips"

definition drained :: "(nat \<times> AudioInputStrip) list \<Rightarrow> (nat \<times> AudioInputStrip) list" where
  "drained strips = map (\<lambda>(r, s). (r, snd (get_audio_chunk s))) strips"

subsection \<open>References and indices in the registry\<close>

text \<open>The registry as the pairs of a strip's reference and its \<^verbatim>\<open>index\<close>.\<close>

definition ids :: "AudioRouterApp \<Rightarrow> (nat \<times> nat) list" where
  "ids app = map (\<lambda>(r, s). (r, index s)) (input_strips app)"

text \<open>An object has one reference, and references are handed out in increasing order.\<close>

definition refs_ok :: "AudioRouterApp \<Rightarrow> bool" where
  "refs_ok app = (distinct (map fst (input_strips app)) \<and>
                  (\<forall>r \<in> set (map fst (input_strips app)). r < next_ref app))"

text \<open>
  How one event changes the registry: the references stay in order, none is handed
  out twice, and a strip that was there before and is there after has its index.
\<close>

definition keeps_ids :: "AudioRouterApp \<Rightarrow> AudioRouterApp \<Rightarrow> bool" where
  "keeps_ids app app' =
     (refs_ok app' \<and> next_ref app \<le> next_ref app' \<and>
      (\<forall>r i. map_of (ids app') r = Some i \<and> r < next_ref app \<longrightarrow> map_of (ids app) r = Some i))"

text \<open>The message of the exception with which an attempt to open ends, if it fails.\<close>

definition failure_of :: "open_outcome \<Rightarrow> string option" where
  "failure_of r = (case r of Opened \<Rightarrow> None | OpenFails m \<Rightarrow> Some m | StartFails m \<Rightarrow> Some m)"

text \<open>
  The driver hands out handles in increasing order: every open stream has a handle
  below the next one, and only open streams are running.
\<close>

definition env_ok :: "env \<Rightarrow> bool" where
  "env_ok e = ((\<forall>h \<in> set (open_streams e). h < next_handle e) \<and>
               set (active_streams e) \<subseteq> set (open_streams e))"

definition demo_device :: device where
  "demo_device = \<lparr>name = ''mic'', max_input_channels = 2, max_output_channels = 2\<rparr>"

text \<open>A strip on which the one device of the system has been picked.\<close>

definition demo_strip :: AudioInputStrip where
  "demo_strip = (AudioInputStrip_init [demo_device] 0)
     \<lparr>device_combo := (populate_devices [demo_device])\<lparr>current_index := 1\<rparr>\<rparr>"

section \<open>Properties\<close>

subsection \<open>The capture queue\<close>

lemma retrieve_take: "retrieve n q = take n (items q)"
  by (induction n arbitrary: q) (auto simp: get_nowait_def split: list.splits)

lemma audio_callback_step:
  assumes "maxsize (audio_queue s) = 10" and "qsize (audio_queue s) \<le> 10"
  shows "audio_callback s b =
    Some (s\<lparr>audio_queue := (audio_queue s)\<lparr>items :=
       (if full (audio_queue s) then tl (items (audio_queue s)) else items (audio_queue s)) @ [b]\<rparr>\<rparr>)"
  using assms
  by (cases "items (audio_queue s)")
     (auto simp: audio_callback_def full_def qsize_def get_nowait_def put_def)

lemma audio_callback_items:
  assumes "maxsize (audio_queue s) = 10" and "qsize (audio_queue s) \<le> 10"
  shows "audio_callback s b =
    Some (s\<lparr>audio_queue := (audio_queue s)\<lparr>items :=
       drop (Suc (qsize (audio_queue s)) - 10) (items (audio_queue s) @ [b])\<rparr>\<rparr>)"
  using assms
  by (cases "items (audio_queue s)")
     (auto simp: audio_callback_step full_def qsize_def)

lemma drop_oldest_append:
  assumes "length q \<le> 10"
  shows "drop (length (drop (Suc (length q) - 10) (q @ [b])) + length bs - 10)
           (drop (Suc (length q) - 10) (q @ [b]) @ bs)
         = drop (length q + length (b # bs) - 10) (q @ b # bs)"
proof (cases "length q = 10")
  case True
  then obtain x q' where q: "q = x # q'" and l: "length q' = 9"
    by (cases q) auto
  have "drop (Suc (length q) - 10) (q @ [b]) = q' @ [b]"
    using q l by simp
  then show ?thesis using q l by simp
next
  case False
  with assms have "Suc (length q) - 10 = 0" by simp
  then show ?thesis by simp
qed

lemma pushes_items:
  assumes "maxsize (audio_queue s) = 10" and "qsize (audio_queue s) \<le> 10"
  shows "pushes s bs =
    Some (s\<lparr>audio_queue := (audio_queue s)\<lparr>items :=
       drop (qsize (audio_queue s) + length bs - 10) (items (audio_queue s) @ bs)\<rparr>\<rparr>)"
  using assms
proof (induction bs arbitrary: s)
  case Nil
  then show ?case by (simp add: qsize_def)
next
  case (Cons b bs)
  let ?q = "items (audio_queue s)"
  let ?s' = "s\<lparr>audio_queue := (audio_queue s)\<lparr>items := drop (Suc (length ?q) - 10) (?q @ [b])\<rparr>\<rparr>"
  have st: "audio_callback s b = Some ?s'"
    using audio_callback_items[OF Cons.prems] by (simp add: qsize_def)
  have m: "maxsize (audio_queue ?s') = 10" using Cons.prems by simp
  have l: "qsize (audio_queue ?s') \<le> 10" using Cons.prems by (simp add: qsize_def)
  have "pushes ?s' bs = Some (?s'\<lparr>audio_queue := (audio_queue ?s')\<lparr>items :=
       drop (qsize (audio_queue ?s') + length bs - 10) (items (audio_queue ?s') @ bs)\<rparr>\<rparr>)"
    by (rule Cons.IH[OF m l])
  moreover have "drop (qsize (audio_queue ?s') + length bs - 10) (items (audio_queue ?s') @ bs)
     = drop (length ?q + length (b # bs) - 10) (?q @ b # bs)"
    using drop_oldest_append[of ?q b bs] Cons.prems(2) by (simp add: qsize_def)
  ultimately show ?case using st by (simp add: qsize_def)
qed

text \<open>
  Claim C2. A strip's queue has capacity 10. On a queue of capacity 10 holding at most
  10 blocks, \<^verbatim>\<open>audio_callback\<close> returns (the \<^verbatim>\<open>put\<close> never waits); when the queue
  was full exactly its oldest block is gone, and the new block is at the end. After any
  run of captured blocks the queue holds at most 10 blocks, namely the newest ones in
  order of arrival. Eleven blocks pushed into an empty queue leave the last ten, and
  they come out oldest first.
\<close>

theorem C2_drop_oldest:
  assumes "maxsize (audio_queue s) = 10" and "qsize (audio_queue s) \<le> 10"
  shows "(\<exists>s'. audio_callback s b = Some s' \<and>
            items (audio_queue s') =
              (if full (audio_queue s) then tl (items (audio_queue s)) else items (audio_queue s)) @ [b]) \<and>
         (\<exists>s'. pushes s bs = Some s' \<and>
            qsize (audio_queue s') \<le> 10 \<and> maxsize (audio_queue s') = 10 \<and>
            items (audio_queue s') =
              drop (qsize (audio_queue s) + length bs - 10) (items (audio_queue s) @ bs)) \<and>
         (items (audio_queue s) = [] \<and> length bs = 10 + 1 \<longrightarrow>
            (\<exists>s'. pushes s bs = Some s' \<and> retrieve (10 + 1) (audio_queue s') = tl bs))"
proof (intro conjI impI)
  show "\<exists>s'. audio_callback s b = Some s' \<and>
            items (audio_queue s') =
              (if full (audio_queue s) then tl (items (audio_queue s)) else items (audio_queue s)) @ [b]"
    using audio_callback_step[OF assms, of b] by simp
  show "\<exists>s'. pushes s bs = Some s' \<and>
            qsize (audio_queue s') \<le> 10 \<and> maxsize (audio_queue s') = 10 \<and>
            items (audio_queue s') =
              drop (qsize (audio_queue s) + length bs - 10) (items (audio_queue s) @ bs)"
    using pushes_items[OF assms, of bs] assms by (simp add: qsize_def)
next
  assume h: "items (audio_queue s) = [] \<and> length bs = 10 + 1"
  then have "drop (qsize (audio_queue s) + length bs - 10) (items (audio_queue s) @ bs) = tl bs"
    by (simp add: qsize_def drop_Suc)
  then show "\<exists>s'. pushes s bs = Some s' \<and> retrieve (10 + 1) (audio_queue s') = tl bs"
    using pushes_items[OF assms, of bs] h by (simp add: retrieve_take)
qed

theorem C2_drop_oldest_witness:
  "\<exists>s'. pushes (AudioInputStrip_init [] 0)
           (map (np_full 1 2) [0, 1, 2, 3, 4, 5, 6, 7, 8, 9, 10]) = Some s' \<and>
        retrieve (10 + 1) (audio_queue s') = map (np_full 1 2) [1, 2, 3, 4, 5, 6, 7, 8, 9, 10]"
  using C2_drop_oldest[where s = "AudioInputStrip_init [] 0" and b = "np_full 1 2 0"
      and bs = "map (np_full 1 2) [0, 1, 2, 3, 4, 5, 6, 7, 8, 9, 10]"]
  by (simp add: AudioInputStrip_init_def Queue_init_def qsize_def)

subsection \<open>The next chunk of a strip\<close>

lemma get_audio_chunk_silence:
  assumes "\<not> is_active s \<or> items (audio_queue s) = []"
  shows "get_audio_chunk s = (np_zeros BLOCK_SIZE CHANNELS, s)"
  using assms by (auto simp: get_audio_chunk_def empty_q_def qsize_def)









subsection \<open>Stopping a strip\<close>

lemma removeAll_as_filter: "removeAll h xs = filter (\<lambda>x. x \<noteq> h) xs"
  by (induction xs) auto

text \<open>
  Claim C8. After \<^verbatim>\<open>stop_stream\<close> the strip is inactive, its queue is empty and it
  has no stream; the stream it had is neither open nor running at the driver, and no
  other stream is touched. A second \<^verbatim>\<open>stop_stream\<close> changes nothing.
\<close>

theorem C8_stop_idempotent:
  "\<not> is_active (fst (stop_stream w)) \<and>
   items (audio_queue (fst (stop_stream w))) = [] \<and>
   stream (fst (stop_stream w)) = None \<and>
   open_streams (snd (stop_stream w)) =
     filter (\<lambda>h. Some h \<noteq> stream (fst w)) (open_streams (snd w)) \<and>
   active_streams (snd (stop_stream w)) =
     filter (\<lambda>h. Some h \<noteq> stream (fst w)) (active_streams (snd w)) \<and>
   stop_stream (stop_stream w) = stop_stream w"
  by (cases "stream (fst w)")
     (auto simp: stop_stream_def clear_def sd_close_def sd_stop_def removeAll_as_filter
           intro: filter_cong)

subsection \<open>The volume\<close>

text \<open>
  Claim C4. The gain is set through the slider, whose range is 0 to 100: the slider
  bounds the value it is given, and \<^verbatim>\<open>update_volume\<close> stores a hundredth of it. So
  for a requested position \<open>v\<close> the stored volume is \<open>v / 100\<close> clamped to the interval
  from 0 to 1, and after \<^verbatim>\<open>update_volume\<close> on a slider inside its range the volume
  lies in that interval.
\<close>

theorem C4_gain_range:
  assumes "minimum (slider s) = 0" and "maximum (slider s) = 100"
  shows "volume (update_volume (s\<lparr>slider := setValue (slider s) v\<rparr>)) =
           max 0 (min 1 (real_of_int v / 100)) \<and>
         (volume s = real_of_int (sl_value (slider s)) / 100 \<longrightarrow>
            volume (move_slider v s) = max 0 (min 1 (real_of_int v / 100))) \<and>
         (0 \<le> sl_value (slider s) \<and> sl_value (slider s) \<le> 100 \<longrightarrow>
            0 \<le> volume (update_volume s) \<and> volume (update_volume s) \<le> 1)"
  using assms
  by (auto simp: update_volume_def setValue_def qBound_def move_slider_def Let_def max_def min_def)

theorem C4_gain_range_witness:
  "volume (update_volume ((AudioInputStrip_init [] 0)
      \<lparr>slider := setValue (slider (AudioInputStrip_init [] 0)) 150\<rparr>)) = 1 \<and>
   volume (move_slider 50 (AudioInputStrip_init [] 0)) = 1 / 2 \<and>
   volume (move_slider (- 5) (AudioInputStrip_init [] 0)) = 0 \<and>
   0 \<le> volume (update_volume (AudioInputStrip_init [] 0)) \<and>
   volume (update_volume (AudioInputStrip_init [] 0)) \<le> 1"
  using C4_gain_range[where s = "AudioInputStrip_init [] 0" and v = 150]
    C4_gain_range[where s = "AudioInputStrip_init [] 0" and v = 50]
    C4_gain_range[where s = "AudioInputStrip_init [] 0" and v = "- 5"]
  by (simp add: AudioInputStrip_init_def setValue_def setRange_def QSlider_init_def qBound_def)

subsection \<open>A capture stream that cannot be opened\<close>

lemma start_stream_no_device:
  assumes "currentData (device_combo (fst w)) = None"
  shows "start_stream drv w = stop_stream w"
  using assms by (subst start_stream.simps) (simp add: stop_stream_combo)

lemma open_input_fails:
  assumes "failure_of (drv d) = Some msg"
  shows "open_input drv d w =
     (Some msg,
      (case drv d of StartFails m \<Rightarrow> (fst w)\<lparr>stream := Some (next_handle (snd w))\<rparr> | _ \<Rightarrow> fst w),
      (case drv d of
         StartFails m \<Rightarrow> (snd w)\<lparr>next_handle := Suc (next_handle (snd w)),
                                  open_streams := open_streams (snd w) @ [next_handle (snd w)]\<rparr>
       | _ \<Rightarrow> snd w))"
  using assms
  by (cases "drv d") (simp_all add: open_input_def sd_Stream_def sd_start_def failure_of_def)

lemma start_stream_fails:
  assumes sel: "currentData (device_combo (fst w)) = Some d"
    and zero: "currentData ((device_combo (fst w))\<lparr>current_index := 0\<rparr>) = None"
    and fail: "failure_of (drv d) = Some msg"
  shows "start_stream drv w =
     stop_stream
       ((fst (snd (open_input drv d (stop_stream w))))
           \<lparr>device_combo := (device_combo (fst w))\<lparr>current_index := 0\<rparr>\<rparr>,
        QMessageBox_critical ''Audio Error'' (input_error_text msg)
          (snd (snd (open_input drv d (stop_stream w)))))"
proof -
  have nz: "current_index (device_combo (fst w)) \<noteq> 0"
  proof
    assume "current_index (device_combo (fst w)) = 0"
    then have "(device_combo (fst w))\<lparr>current_index := 0\<rparr> = device_combo (fst w)" by simp
    with sel zero show False by simp
  qed
  obtain s2 e2 where o: "open_input drv d (stop_stream w) = (Some msg, s2, e2)"
    using open_input_fails[where drv = drv and d = d and w = "stop_stream w" and msg = msg] fail
    by simp
  have c2: "device_combo s2 = device_combo (fst w)"
    using open_input_combo[of drv d "stop_stream w"] o by (simp add: stop_stream_combo)
  have "start_stream drv w =
     start_stream drv (s2\<lparr>device_combo := (device_combo s2)\<lparr>current_index := 0\<rparr>\<rparr>,
        QMessageBox_critical ''Audio Error'' (input_error_text msg) e2)"
    using sel o nz c2 by (subst start_stream.simps) (simp add: stop_stream_combo)
  also have "\<dots> = stop_stream (s2\<lparr>device_combo := (device_combo s2)\<lparr>current_index := 0\<rparr>\<rparr>,
        QMessageBox_critical ''Audio Error'' (input_error_text msg) e2)"
    using zero c2 by (intro start_stream_no_device) simp
  finally show ?thesis using o c2 by simp
qed


lemma others_update:
  "filter (\<lambda>(k, v). k \<noteq> r) (AList.update r s' al) = filter (\<lambda>(k, v). k \<noteq> r) al"
  by (induction al) auto

lemma on_strip_found:
  assumes "map_of (input_strips app) r = Some s"
  shows "on_strip r f (app, e) =
     (app\<lparr>input_strips := AList.update r (fst (f (s, e))) (input_strips app)\<rparr>, snd (f (s, e)))"
  using assms by (simp add: on_strip_def split: prod.splits)

lemma filter_fresh:
  assumes "\<forall>h \<in> set xs. h < (n::nat)"
  shows "removeAll n (removeAll a xs) = removeAll a xs" and "removeAll n xs = xs"
  using assms by (induction xs) auto

lemma start_stream_fails_state:
  assumes sel: "currentData (device_combo s) = Some d"
    and zero: "currentData ((device_combo s)\<lparr>current_index := 0\<rparr>) = None"
    and fail: "failure_of (drv d) = Some msg"
    and ok: "env_ok e"
  shows "start_stream drv (s, e) =
     (s\<lparr>is_active := False, stream := None, audio_queue := clear (audio_queue s),
        device_combo := (device_combo s)\<lparr>current_index := 0\<rparr>\<rparr>,
      e\<lparr>next_handle := (case drv d of StartFails m \<Rightarrow> Suc (next_handle e) | _ \<Rightarrow> next_handle e),
        open_streams := filter (\<lambda>h. Some h \<noteq> stream s) (open_streams e),
        active_streams := filter (\<lambda>h. Some h \<noteq> stream s) (active_streams e),
        dialogs := dialogs e @ [(''Audio Error'', input_error_text msg)]\<rparr>)"
proof -
  have o: "\<forall>h \<in> set (open_streams e). h < next_handle e"
    and a: "\<forall>h \<in> set (active_streams e). h < next_handle e"
    using ok by (auto simp: env_ok_def)
  note fo = filter_fresh[OF o] and fa = filter_fresh[OF a]
  show ?thesis
    using start_stream_fails[where w = "(s, e)" and drv = drv and d = d and msg = msg] sel zero fail
      open_input_fails[where drv = drv and d = d and w = "stop_stream (s, e)" and msg = msg]
    by (cases "drv d"; cases "stream s")
       (simp_all add: stop_stream_def clear_def sd_close_def sd_stop_def QMessageBox_critical_def
          failure_of_def removeAll_as_filter[symmetric] fo fa)
qed


text \<open>
  Claim C5. A device is selected on a strip and the driver refuses to open it, in the
  constructor or in \<^verbatim>\<open>start\<close>. Then \<^verbatim>\<open>start_stream\<close> leaves the strip inactive
  and without a stream, the driver holds open exactly the streams it held before
  apart from the one this strip had (so the stream that was constructed and could not
  be started is closed again), one message box with the error is shown, and every
  other strip of the registry is as it was.
\<close>

theorem C5_open_failure:
  assumes "map_of (input_strips app) r = Some s"
    and "currentData (device_combo s) = Some d"
    and "currentData ((device_combo s)\<lparr>current_index := 0\<rparr>) = None"
    and "failure_of (drv d) = Some msg"
    and "env_ok e"
  shows "\<not> is_active (fst (start_stream drv (s, e))) \<and>
         stream (fst (start_stream drv (s, e))) = None \<and>
         open_streams (snd (start_stream drv (s, e))) =
           filter (\<lambda>h. Some h \<noteq> stream s) (open_streams e) \<and>
         active_streams (snd (start_stream drv (s, e))) =
           filter (\<lambda>h. Some h \<noteq> stream s) (active_streams e) \<and>
         dialogs (snd (start_stream drv (s, e))) =
           dialogs e @ [(''Audio Error'', input_error_text msg)] \<and>
         on_strip r (start_stream drv) (app, e) =
           (app\<lparr>input_strips := AList.update r (fst (start_stream drv (s, e))) (input_strips app)\<rparr>,
            snd (start_stream drv (s, e))) \<and>
         filter (\<lambda>(k, v). k \<noteq> r) (input_strips (fst (on_strip r (start_stream drv) (app, e)))) =
           filter (\<lambda>(k, v). k \<noteq> r) (input_strips app)"
proof -
  have st: "start_stream drv (s, e) =
     (s\<lparr>is_active := False, stream := None, audio_queue := clear (audio_queue s),
        device_combo := (device_combo s)\<lparr>current_index := 0\<rparr>\<rparr>,
      e\<lparr>next_handle := (case drv d of StartFails m \<Rightarrow> Suc (next_handle e) | _ \<Rightarrow> next_handle e),
        open_streams := filter (\<lambda>h. Some h \<noteq> stream s) (open_streams e),
        active_streams := filter (\<lambda>h. Some h \<noteq> stream s) (active_streams e),
        dialogs := dialogs e @ [(''Audio Error'', input_error_text msg)]\<rparr>)"
    using assms(2-5) by (rule start_stream_fails_state)
  have on: "on_strip r (start_stream drv) (app, e) =
           (app\<lparr>input_strips := AList.update r (fst (start_stream drv (s, e))) (input_strips app)\<rparr>,
            snd (start_stream drv (s, e)))"
    using assms(1) by (rule on_strip_found)
  have ot: "filter (\<lambda>(k, v). k \<noteq> r) (input_strips (fst (on_strip r (start_stream drv) (app, e)))) =
           filter (\<lambda>(k, v). k \<noteq> r) (input_strips app)"
    unfolding on by (simp add: others_update)
  show ?thesis
    apply (intro conjI)
          apply (simp add: st)
         apply (simp add: st)
        apply (simp add: st)
       apply (simp add: st)
      apply (simp add: st)
     apply (rule on)
    apply (rule ot)
    done
qed

theorem C5_open_failure_witness:
  "\<not> is_active (fst (start_stream (\<lambda>d. StartFails ''busy'') (demo_strip, env_init))) \<and>
   stream (fst (start_stream (\<lambda>d. StartFails ''busy'') (demo_strip, env_init))) = None \<and>
   open_streams (snd (start_stream (\<lambda>d. StartFails ''busy'') (demo_strip, env_init))) = [] \<and>
   dialogs (snd (start_stream (\<lambda>d. StartFails ''busy'') (demo_strip, env_init))) =
     [(''Audio Error'', input_error_text ''busy'')] \<and>
   filter (\<lambda>(k, v). k \<noteq> 0)
     (input_strips (fst (on_strip 0 (start_stream (\<lambda>d. StartFails ''busy''))
        (\<lparr>input_strips = [(0, demo_strip), (1, AudioInputStrip_init [demo_device] 1)],
          output_stream = None, out_combo = populate_output_devices [demo_device], next_ref = 2\<rparr>,
         env_init)))) =
     [(1, AudioInputStrip_init [demo_device] 1)]"
  using C5_open_failure[where app = "\<lparr>input_strips = [(0, demo_strip), (1, AudioInputStrip_init [demo_device] 1)],
        output_stream = None, out_combo = populate_output_devices [demo_device], next_ref = 2\<rparr>"
      and r = 0 and s = demo_strip and d = 0 and drv = "\<lambda>d. StartFails ''busy''" and msg = "''busy''"
      and e = env_init]
  by (simp add: demo_strip_def demo_device_def populate_devices_def currentData_def failure_of_def
      env_ok_def env_init_def)

subsection \<open>A playback stream that cannot be opened\<close>

lemma restart_output_no_device:
  assumes "currentData (out_combo (fst w)) = None"
  shows "restart_output_stream drv w = close_output w"
  using assms by (subst restart_output_stream.simps) (simp add: close_output_combo)

lemma open_output_fails:
  assumes "failure_of (drv d) = Some msg"
  shows "open_output drv d w =
     (Some msg,
      (case drv d of StartFails m \<Rightarrow> (fst w)\<lparr>output_stream := Some (next_handle (snd w))\<rparr> | _ \<Rightarrow> fst w),
      (case drv d of
         StartFails m \<Rightarrow> (snd w)\<lparr>next_handle := Suc (next_handle (snd w)),
                                  open_streams := open_streams (snd w) @ [next_handle (snd w)]\<rparr>
       | _ \<Rightarrow> snd w))"
  using assms
  by (cases "drv d") (simp_all add: open_output_def sd_Stream_def sd_start_def failure_of_def)

lemma restart_output_fails:
  assumes sel: "currentData (out_combo (fst w)) = Some d"
    and zero: "currentData ((out_combo (fst w))\<lparr>current_index := 0\<rparr>) = None"
    and fail: "failure_of (drv d) = Some msg"
  shows "restart_output_stream drv w =
     close_output
       ((fst (snd (open_output drv d (close_output w))))
           \<lparr>out_combo := (out_combo (fst w))\<lparr>current_index := 0\<rparr>\<rparr>,
        QMessageBox_critical ''Output Error'' (output_error_text msg)
          (snd (snd (open_output drv d (close_output w)))))"
proof -
  have nz: "current_index (out_combo (fst w)) \<noteq> 0"
  proof
    assume "current_index (out_combo (fst w)) = 0"
    then have "(out_combo (fst w))\<lparr>current_index := 0\<rparr> = out_combo (fst w)" by simp
    with sel zero show False by simp
  qed
  obtain a2 e2 where o: "open_output drv d (close_output w) = (Some msg, a2, e2)"
    using open_output_fails[where drv = drv and d = d and w = "close_output w" and msg = msg] fail
    by simp
  have c2: "out_combo a2 = out_combo (fst w)"
    using open_output_combo[of drv d "close_output w"] o by (simp add: close_output_combo)
  have "restart_output_stream drv w =
     restart_output_stream drv (a2\<lparr>out_combo := (out_combo a2)\<lparr>current_index := 0\<rparr>\<rparr>,
        QMessageBox_critical ''Output Error'' (output_error_text msg) e2)"
    using sel o nz c2 by (subst restart_output_stream.simps) (simp add: close_output_combo)
  also have "\<dots> = close_output (a2\<lparr>out_combo := (out_combo a2)\<lparr>current_index := 0\<rparr>\<rparr>,
        QMessageBox_critical ''Output Error'' (output_error_text msg) e2)"
    using zero c2 by (intro restart_output_no_device) simp
  finally show ?thesis using o c2 by simp
qed

lemma restart_output_fails_state:
  assumes sel: "currentData (out_combo app) = Some d"
    and zero: "currentData ((out_combo app)\<lparr>current_index := 0\<rparr>) = None"
    and fail: "failure_of (drv d) = Some msg"
    and ok: "env_ok e"
  shows "restart_output_stream drv (app, e) =
     (app\<lparr>output_stream := None, out_combo := (out_combo app)\<lparr>current_index := 0\<rparr>\<rparr>,
      e\<lparr>next_handle := (case drv d of StartFails m \<Rightarrow> Suc (next_handle e) | _ \<Rightarrow> next_handle e),
        open_streams := filter (\<lambda>h. Some h \<noteq> output_stream app) (open_streams e),
        active_streams := filter (\<lambda>h. Some h \<noteq> output_stream app) (active_streams e),
        dialogs := dialogs e @ [(''Output Error'', output_error_text msg)]\<rparr>)"
proof -
  have o: "\<forall>h \<in> set (open_streams e). h < next_handle e"
    and a: "\<forall>h \<in> set (active_streams e). h < next_handle e"
    using ok by (auto simp: env_ok_def)
  note fo = filter_fresh[OF o] and fa = filter_fresh[OF a]
  show ?thesis
    using restart_output_fails[where w = "(app, e)" and drv = drv and d = d and msg = msg] sel zero fail
      open_output_fails[where drv = drv and d = d and w = "close_output (app, e)" and msg = msg]
    by (cases "drv d"; cases "output_stream app")
       (simp_all add: close_output_def sd_close_def sd_stop_def QMessageBox_critical_def
          failure_of_def removeAll_as_filter[symmetric] fo fa)
qed

text \<open>
  Claim C9. An output device is selected and the driver refuses to open it, in the
  constructor or in \<^verbatim>\<open>start\<close>. Then \<^verbatim>\<open>restart_output_stream\<close> leaves the
  application without a playback stream, the driver holds open exactly the streams it
  held before apart from the old playback stream, one message box with the error is
  shown, and the strips of the registry (stream, activity, volume, queue and all) are
  exactly as they were.
\<close>

theorem C9_output_failure:
  assumes "currentData (out_combo app) = Some d"
    and "currentData ((out_combo app)\<lparr>current_index := 0\<rparr>) = None"
    and "failure_of (drv d) = Some msg"
    and "env_ok e"
  shows "output_stream (fst (restart_output_stream drv (app, e))) = None \<and>
         open_streams (snd (restart_output_stream drv (app, e))) =
           filter (\<lambda>h. Some h \<noteq> output_stream app) (open_streams e) \<and>
         active_streams (snd (restart_output_stream drv (app, e))) =
           filter (\<lambda>h. Some h \<noteq> output_stream app) (active_streams e) \<and>
         dialogs (snd (restart_output_stream drv (app, e))) =
           dialogs e @ [(''Output Error'', output_error_text msg)] \<and>
         input_strips (fst (restart_output_stream drv (app, e))) = input_strips app"
  using assms
  by (simp add: restart_output_fails_state[where app = app and d = d and drv = drv and msg = msg and e = e])

theorem C9_output_failure_witness:
  "output_stream (fst (restart_output_stream (\<lambda>d. OpenFails ''no device'')
      (\<lparr>input_strips = [(0, demo_strip)], output_stream = Some 0,
        out_combo = (populate_output_devices [demo_device])\<lparr>current_index := 1\<rparr>, next_ref = 1\<rparr>,
       \<lparr>next_handle = 1, open_streams = [0], active_streams = [0], dialogs = []\<rparr>))) = None \<and>
   open_streams (snd (restart_output_stream (\<lambda>d. OpenFails ''no device'')
      (\<lparr>input_strips = [(0, demo_strip)], output_stream = Some 0,
        out_combo = (populate_output_devices [demo_device])\<lparr>current_index := 1\<rparr>, next_ref = 1\<rparr>,
       \<lparr>next_handle = 1, open_streams = [0], active_streams = [0], dialogs = []\<rparr>))) = [] \<and>
   dialogs (snd (restart_output_stream (\<lambda>d. OpenFails ''no device'')
      (\<lparr>input_strips = [(0, demo_strip)], output_stream = Some 0,
        out_combo = (populate_output_devices [demo_device])\<lparr>current_index := 1\<rparr>, next_ref = 1\<rparr>,
       \<lparr>next_handle = 1, open_streams = [0], active_streams = [0], dialogs = []\<rparr>))) =
     [(''Output Error'', output_error_text ''no device'')] \<and>
   input_strips (fst (restart_output_stream (\<lambda>d. OpenFails ''no device'')
      (\<lparr>input_strips = [(0, demo_strip)], output_stream = Some 0,
        out_combo = (populate_output_devices [demo_device])\<lparr>current_index := 1\<rparr>, next_ref = 1\<rparr>,
       \<lparr>next_handle = 1, open_streams = [0], active_streams = [0], dialogs = []\<rparr>))) =
     [(0, demo_strip)]"
  using C9_output_failure[where app = "\<lparr>input_strips = [(0, demo_strip)], output_stream = Some 0,
        out_combo = (populate_output_devices [demo_device])\<lparr>current_index := 1\<rparr>, next_ref = 1\<rparr>"
      and d = 0 and drv = "\<lambda>d. OpenFails ''no device''" and msg = "''no device''"
      and e = "\<lparr>next_handle = 1, open_streams = [0], active_streams = [0], dialogs = []\<rparr>"]
  by (simp add: demo_device_def populate_output_devices_def currentData_def failure_of_def env_ok_def)

subsection \<open>The mixing pass\<close>

lemma np_zeros_ok: "block_ok (np_zeros r CHANNELS)"
  by (simp add: block_ok_def ndarray_ok_def np_zeros_def np_full_def)

lemma np_mul_ok: "block_ok b \<Longrightarrow> block_ok (np_mul b g)"
  by (simp add: block_ok_def ndarray_ok_def np_mul_def)

lemma get_audio_chunk_ok:
  assumes "strip_ok s"
  shows "block_ok (fst (get_audio_chunk s))" and "strip_ok (snd (get_audio_chunk s))"
  using assms
  by (auto simp: get_audio_chunk_def get_nowait_def strip_ok_def np_zeros_ok np_mul_ok
           split: list.splits)

lemma np_iadd_same_len:
  assumes "block_ok c" and "block_ok mixed" and "len c = len mixed"
  shows "np_iadd mixed c = Inr (add_elementwise mixed c)" and "np_shape c = np_shape mixed"
  using assms
  by (simp_all add: np_iadd_def broadcast_to_def broadcast_cols_def block_ok_def len_def
        add_elementwise_def np_shape_def)

lemma other_len_other_shape: "len c \<noteq> len mixed \<Longrightarrow> np_shape c \<noteq> np_shape mixed"
  by (simp add: len_def np_shape_def)

lemma add_elementwise_ok:
  assumes "block_ok c" and "block_ok mixed" and "len c = len mixed"
  shows "block_ok (add_elementwise mixed c)" and "len (add_elementwise mixed c) = len mixed"
  using assms
  by (simp_all add: block_ok_def ndarray_ok_def add_elementwise_def len_def)

lemma mix_by_size_ok:
  assumes "\<forall>c \<in> set cs. block_ok c" and "block_ok acc"
  shows "block_ok (mix_by_size cs acc) \<and> len (mix_by_size cs acc) = len acc"
  using assms
proof (induction cs arbitrary: acc)
  case Nil
  then show ?case by simp
next
  case (Cons c cs)
  show ?case
  proof (cases "np_shape c = np_shape acc")
    case True
    then have l: "len c = len acc" by (simp add: np_shape_def len_def)
    have "block_ok c" using Cons.prems by simp
    then have "block_ok (add_elementwise acc c)" "len (add_elementwise acc c) = len acc"
      using Cons.prems(2) l by (simp_all add: add_elementwise_ok)
    then show ?thesis using Cons.IH[of "add_elementwise acc c"] Cons.prems True by simp
  next
    case False
    then show ?thesis using Cons.IH[of acc] Cons.prems by simp
  qed
qed

lemma mix_strips_refines:
  assumes "\<forall>s \<in> snd ` set strips. strip_ok s" and "block_ok mixed"
  shows "mix_strips strips mixed = (drained strips, Inr (mix_by_size (yielded strips) mixed))"
  using assms
proof (induction strips arbitrary: mixed)
  case Nil
  then show ?case by (simp add: drained_def yielded_def)
next
  case (Cons p strips)
  obtain r s where p: "p = (r, s)" by (cases p)
  obtain c s' where g: "get_audio_chunk s = (c, s')" by (cases "get_audio_chunk s")
  have sok: "strip_ok s" using Cons.prems(1) p by simp
  have cok: "block_ok c" using get_audio_chunk_ok(1)[OF sok] g by simp
  have rest: "\<forall>s \<in> snd ` set strips. strip_ok s" using Cons.prems(1) by simp
  show ?case
  proof (cases "len c = len mixed")
    case True
    have a: "np_iadd mixed c = Inr (add_elementwise mixed c)"
      and sh: "np_shape c = np_shape mixed"
      using cok Cons.prems(2) True by (rule np_iadd_same_len)+
    have "block_ok (add_elementwise mixed c)"
      using cok Cons.prems(2) True by (rule add_elementwise_ok)
    then have "mix_strips strips (add_elementwise mixed c) =
        (drained strips, Inr (mix_by_size (yielded strips) (add_elementwise mixed c)))"
      using Cons.IH[OF rest] by simp
    then show ?thesis using p g True a sh by (simp add: drained_def yielded_def)
  next
    case False
    then have sh: "np_shape c \<noteq> np_shape mixed" by (rule other_len_other_shape)
    have "mix_strips strips mixed = (drained strips, Inr (mix_by_size (yielded strips) mixed))"
      using Cons.IH[OF rest Cons.prems(2)] .
    then show ?thesis using p g False sh by (simp add: drained_def yielded_def)
  qed
qed

lemma yielded_ok:
  assumes "\<forall>s \<in> snd ` set strips. strip_ok s"
  shows "\<forall>c \<in> set (yielded strips). block_ok c"
  using assms by (auto simp: yielded_def get_audio_chunk_ok)

lemma np_clip_ok: "block_ok m \<Longrightarrow> block_ok (np_clip m lo hi) \<and> len (np_clip m lo hi) = len m"
  by (simp add: block_ok_def ndarray_ok_def np_clip_def len_def)

lemma output_callback_refines:
  assumes "\<forall>s \<in> snd ` set (input_strips app). strip_ok s"
  shows "output_callback app frames =
     (app\<lparr>input_strips := drained (input_strips app)\<rparr>,
      Inr (np_clip (mix_by_size (yielded (input_strips app)) (np_zeros frames CHANNELS)) (- 1) 1))"
  using mix_strips_refines[OF assms np_zeros_ok, of frames]
  by (simp add: output_callback_def)

lemma strip_ok_init: "strip_ok (AudioInputStrip_init devices i)"
  by (simp add: strip_ok_def AudioInputStrip_init_def Queue_init_def)

lemma audio_callback_ok:
  assumes "audio_callback s b = Some s'" and "strip_ok s" and "block_ok b"
  shows "strip_ok s'"
  using assms
  by (auto simp: audio_callback_def put_def get_nowait_def strip_ok_def Let_def
           split: if_splits list.splits)

text \<open>
  The size check of the loop compares the number of frames only. A block with as many
  frames as the accumulator and three samples per frame, which no stream opened with
  \<open>CHANNELS\<close> channels delivers, would make the addition raise.
\<close>

lemma mix_strips_other_width:
  "snd (mix_strips
     [(0, (AudioInputStrip_init [] 0)
            \<lparr>audio_queue := \<lparr>maxsize = 10, items = [np_full 2 3 1]\<rparr>, is_active := True\<rparr>)]
     (np_zeros 2 CHANNELS)) = Inl ValueError"
  by (simp add: get_audio_chunk_def empty_q_def qsize_def get_nowait_def np_mul_def np_full_def
      np_zeros_def len_def np_iadd_def broadcast_to_def broadcast_cols_def CHANNELS_def)

text \<open>
  Claim C7. The blocks in the queues have \<open>CHANNELS\<close> samples per frame, as the capture
  streams deliver them. Then the loop of the mixer does what the specification says
  block by block: a chunk is added elementwise if and only if its shape is the shape
  of the accumulator, and is skipped otherwise. The pass never raises: the callback
  writes an array of \<open>frames\<close> by \<open>CHANNELS\<close> samples.
\<close>

theorem C7_size_mismatch_skipped:
  assumes "\<forall>s \<in> snd ` set (input_strips app). strip_ok s"
  shows "mix_strips (input_strips app) (np_zeros frames CHANNELS) =
           (drained (input_strips app),
            Inr (mix_by_size (yielded (input_strips app)) (np_zeros frames CHANNELS))) \<and>
         (\<exists>out. snd (output_callback app frames) = Inr out \<and>
            np_shape out = (frames, CHANNELS) \<and> ndarray_ok out)"
proof
  show "mix_strips (input_strips app) (np_zeros frames CHANNELS) =
           (drained (input_strips app),
            Inr (mix_by_size (yielded (input_strips app)) (np_zeros frames CHANNELS)))"
    using assms np_zeros_ok by (rule mix_strips_refines)
next
  let ?m = "mix_by_size (yielded (input_strips app)) (np_zeros frames CHANNELS)"
  have "block_ok ?m \<and> len ?m = len (np_zeros frames CHANNELS)"
    using yielded_ok[OF assms] np_zeros_ok by (rule mix_by_size_ok)
  then have "block_ok (np_clip ?m (- 1) 1)" and "len (np_clip ?m (- 1) 1) = frames"
    using np_clip_ok[of ?m "- 1" 1] by (simp_all add: len_def np_zeros_def np_full_def)
  then have "np_shape (np_clip ?m (- 1) 1) = (frames, CHANNELS) \<and> ndarray_ok (np_clip ?m (- 1) 1)"
    by (simp add: np_shape_def block_ok_def len_def)
  then show "\<exists>out. snd (output_callback app frames) = Inr out \<and>
            np_shape out = (frames, CHANNELS) \<and> ndarray_ok out"
    using output_callback_refines[OF assms, of frames] by simp
qed


theorem C7_size_mismatch_skipped_witness:
  "snd (mix_strips
     [(0, (AudioInputStrip_init [] 0)
            \<lparr>audio_queue := \<lparr>maxsize = 10, items = [np_full 2 CHANNELS (1 / 2)]\<rparr>, is_active := True\<rparr>),
      (1, AudioInputStrip_init [] 1)]
     (np_zeros 2 CHANNELS)) = Inr (np_full 2 CHANNELS (1 / 2))"
  using C7_size_mismatch_skipped[where app = "\<lparr>input_strips =
     [(0, (AudioInputStrip_init [] 0)
            \<lparr>audio_queue := \<lparr>maxsize = 10, items = [np_full 2 CHANNELS (1 / 2)]\<rparr>, is_active := True\<rparr>),
      (1, AudioInputStrip_init [] 1)],
     output_stream = None, out_combo = populate_output_devices [], next_ref = 2\<rparr>" and frames = 2]
  by (simp add: strip_ok_def block_ok_def ndarray_ok_def np_full_def np_zeros_def yielded_def
      AudioInputStrip_init_def Queue_init_def get_audio_chunk_def empty_q_def qsize_def
      get_nowait_def np_mul_def np_shape_def add_elementwise_def BLOCK_SIZE_def CHANNELS_def)

subsection \<open>Clipping\<close>









subsection \<open>Silence of a fixed shape\<close>

text \<open>
  Claim C10. The silence of an inactive or empty strip is always \<open>BLOCK_SIZE\<close> = 1024
  frames of \<open>CHANNELS\<close> = 2 samples, whatever the callback asks for. When the callback
  asks for another number of frames the chunk fails the size check: the loop goes on
  with the accumulator untouched, and the output is the one the pass would write
  without that strip.
\<close>

theorem C10_silence_shape:
  assumes "\<not> is_active s \<or> empty_q (audio_queue s)"
  shows "fst (get_audio_chunk s) = np_zeros BLOCK_SIZE CHANNELS \<and>
         np_shape (fst (get_audio_chunk s)) = (1024, 2) \<and>
         (frames \<noteq> 1024 \<and> len mixed = frames \<longrightarrow>
            len (fst (get_audio_chunk s)) \<noteq> len mixed \<and>
            mix_strips ((r, s) # rest) mixed =
              ((r, s) # fst (mix_strips rest mixed), snd (mix_strips rest mixed))) \<and>
         (frames \<noteq> 1024 \<longrightarrow>
            snd (output_callback (app\<lparr>input_strips := (r, s) # rest\<rparr>) frames) =
            snd (output_callback (app\<lparr>input_strips := rest\<rparr>) frames))"
proof -
  have g: "get_audio_chunk s = (np_zeros BLOCK_SIZE CHANNELS, s)"
    using assms by (simp add: get_audio_chunk_silence empty_q_def qsize_def)
  have l: "len (np_zeros n CHANNELS) = n" for n
    by (simp add: len_def np_zeros_def np_full_def)
  have sk: "mix_strips ((r, s) # rest) m =
              ((r, s) # fst (mix_strips rest m), snd (mix_strips rest m))"
    if "len m \<noteq> 1024" for m
    using that by (simp add: g l BLOCK_SIZE_def split: prod.splits)
  show ?thesis
    using sk[of mixed] sk[of "np_zeros frames CHANNELS"]
    by (auto simp: g l np_shape_def np_zeros_def np_full_def BLOCK_SIZE_def CHANNELS_def
          output_callback_def len_def split: prod.splits)
qed

theorem C10_silence_shape_witness:
  "np_shape (fst (get_audio_chunk (AudioInputStrip_init [] 0))) = (1024, 2) \<and>
   mix_strips [(0, AudioInputStrip_init [] 0)] (np_zeros 512 CHANNELS) =
     ([(0, AudioInputStrip_init [] 0)], Inr (np_zeros 512 CHANNELS))"
  using C10_silence_shape[where s = "AudioInputStrip_init [] 0" and frames = 512
      and mixed = "np_zeros 512 CHANNELS" and r = 0 and rest = "[]"
      and app = "AudioRouterApp_init []"]
  by (simp add: AudioInputStrip_init_def len_def np_zeros_def np_full_def np_shape_def
        BLOCK_SIZE_def CHANNELS_def del: mix_strips.simps(2))

subsection \<open>The index of a strip\<close>

lemma stop_stream_index: "index (fst (stop_stream w)) = index (fst w)"
  by (simp add: stop_stream_def Let_def split: option.splits prod.splits)

lemma open_input_index: "index (fst (snd (open_input drv d w))) = index (fst w)"
  by (simp add: open_input_def Let_def split: sum.splits prod.splits)

lemma start_stream_index: "index (fst (start_stream drv w)) = index (fst w)"
proof (induction drv w rule: start_stream.induct)
  case (1 drv w)
  show ?case
  proof (cases "currentData (device_combo (fst (stop_stream w)))")
    case None
    then show ?thesis
      by (subst start_stream.simps) (simp add: stop_stream_index)
  next
    case (Some d)
    obtain m w2 where o: "open_input drv d (stop_stream w) = (m, w2)"
      by (cases "open_input drv d (stop_stream w)")
    have i2: "index (fst w2) = index (fst w)"
      using open_input_index[of drv d "stop_stream w"] o by (simp add: stop_stream_index)
    show ?thesis
    proof (cases m)
      case None
      then show ?thesis using Some o i2
        by (subst start_stream.simps) simp
    next
      case (Some msg)
      show ?thesis
      proof (cases "current_index (device_combo (fst w2)) = 0")
        case True
        then show ?thesis using \<open>currentData _ = Some d\<close> o Some i2
          by (subst start_stream.simps) simp
      next
        case False
        have "index (fst (start_stream drv
                ((fst w2)\<lparr>device_combo := (device_combo (fst w2))\<lparr>current_index := 0\<rparr>\<rparr>,
                 QMessageBox_critical ''Audio Error'' (input_error_text msg) (snd w2)))) =
              index (fst ((fst w2)\<lparr>device_combo := (device_combo (fst w2))\<lparr>current_index := 0\<rparr>\<rparr>,
                 QMessageBox_critical ''Audio Error'' (input_error_text msg) (snd w2)))"
          using "1.IH"[OF refl \<open>currentData _ = Some d\<close> o[symmetric] Some refl False] .
        then show ?thesis using \<open>currentData _ = Some d\<close> o Some i2 False
          by (subst start_stream.simps) simp
      qed
    qed
  qed
qed


lemma close_output_strips:
  "input_strips (fst (close_output w)) = input_strips (fst w)"
  "next_ref (fst (close_output w)) = next_ref (fst w)"
  by (simp_all add: close_output_def split: option.splits)

lemma open_output_strips:
  "input_strips (fst (snd (open_output drv d w))) = input_strips (fst w)"
  "next_ref (fst (snd (open_output drv d w))) = next_ref (fst w)"
  by (simp_all add: open_output_def Let_def split: sum.splits prod.splits)

lemma restart_output_strips:
  "input_strips (fst (restart_output_stream drv w)) = input_strips (fst w) \<and>
   next_ref (fst (restart_output_stream drv w)) = next_ref (fst w)"
proof (induction drv w rule: restart_output_stream.induct)
  case (1 drv w)
  show ?case
  proof (cases "currentData (out_combo (fst (close_output w)))")
    case None
    then show ?thesis
      by (subst (1 2) restart_output_stream.simps) (simp add: close_output_strips)
  next
    case (Some d)
    obtain m w2 where o: "open_output drv d (close_output w) = (m, w2)"
      by (cases "open_output drv d (close_output w)")
    have i2: "input_strips (fst w2) = input_strips (fst w)" "next_ref (fst w2) = next_ref (fst w)"
      using open_output_strips[of drv d "close_output w"] o by (simp_all add: close_output_strips)
    show ?thesis
    proof (cases m)
      case None
      then show ?thesis using Some o i2
        by (subst (1 2) restart_output_stream.simps) simp
    next
      case (Some msg)
      show ?thesis
      proof (cases "current_index (out_combo (fst w2)) = 0")
        case True
        then show ?thesis using \<open>currentData _ = Some d\<close> o Some i2
          by (subst (1 2) restart_output_stream.simps) simp
      next
        case False
        let ?w3 = "((fst w2)\<lparr>out_combo := (out_combo (fst w2))\<lparr>current_index := 0\<rparr>\<rparr>,
                 QMessageBox_critical ''Output Error'' (output_error_text msg) (snd w2))"
        have "input_strips (fst (restart_output_stream drv ?w3)) = input_strips (fst ?w3) \<and>
              next_ref (fst (restart_output_stream drv ?w3)) = next_ref (fst ?w3)"
          using "1.IH"[OF refl \<open>currentData _ = Some d\<close> o[symmetric] Some refl False] .
        then show ?thesis using \<open>currentData _ = Some d\<close> o Some i2 False
          by (subst (1 2) restart_output_stream.simps) simp
      qed
    qed
  qed
qed

lemma select_device_index: "index (fst (select_device i drv w)) = index (fst w)"
  by (simp add: select_device_def start_stream_index)

lemma move_slider_index: "index (move_slider v s) = index s"
  by (simp add: move_slider_def update_volume_def Let_def)

lemma audio_callback_index: "audio_callback s b = Some s' \<Longrightarrow> index s' = index s"
  by (auto simp: audio_callback_def split: option.splits)

lemma get_audio_chunk_index: "index (snd (get_audio_chunk s)) = index s"
  by (auto simp: get_audio_chunk_def split: sum.splits)

lemma mix_strips_ids:
  "map (\<lambda>(r, s). (r, index s)) (fst (mix_strips strips m)) = map (\<lambda>(r, s). (r, index s)) strips"
proof (induction strips arbitrary: m)
  case Nil
  then show ?case by simp
next
  case (Cons p strips)
  obtain r s where p: "p = (r, s)" by (cases p)
  obtain c s' where g: "get_audio_chunk s = (c, s')" by (cases "get_audio_chunk s")
  have i: "index s' = index s" using get_audio_chunk_index[of s] g by simp
  show ?case
  proof (cases "len c = len m")
    case False
    obtain rest' res where t: "mix_strips strips m = (rest', res)"
      by (cases "mix_strips strips m")
    then show ?thesis using Cons.IH[of m] p g i False by simp
  next
    case True
    show ?thesis
    proof (cases "np_iadd m c")
      case (Inl e)
      then show ?thesis using p g i True by simp
    next
      case (Inr m')
      obtain rest' res where t: "mix_strips strips m' = (rest', res)"
        by (cases "mix_strips strips m'")
      then show ?thesis using Cons.IH[of m'] p g i True Inr by simp
    qed
  qed
qed

lemma update_ids:
  assumes "map_of al r = Some s" and "index s' = index s"
  shows "map (\<lambda>(r, s). (r, index s)) (AList.update r s' al) = map (\<lambda>(r, s). (r, index s)) al"
  using assms by (induction al) (auto split: if_splits)

lemma on_strip_ids:
  assumes "\<And>w. index (fst (f w)) = index (fst w)"
  shows "ids (fst (on_strip r f w)) = ids (fst w)" and "next_ref (fst (on_strip r f w)) = next_ref (fst w)"
proof -
  show "ids (fst (on_strip r f w)) = ids (fst w)"
  proof (cases "map_of (input_strips (fst w)) r")
    case None
    then show ?thesis by (simp add: on_strip_def)
  next
    case (Some s)
    obtain s' e' where f: "f (s, snd w) = (s', e')" by (cases "f (s, snd w)")
    have "index s' = index s" using assms[of "(s, snd w)"] f by simp
    then show ?thesis using Some f
      by (simp add: on_strip_def ids_def update_ids)
  qed
  show "next_ref (fst (on_strip r f w)) = next_ref (fst w)"
    by (simp add: on_strip_def split: option.splits prod.splits)
qed

lemma capture_ids:
  assumes "capture r b app = Some app'"
  shows "ids app' = ids app" and "next_ref app' = next_ref app"
  using assms
  by (auto simp: capture_def ids_def update_ids audio_callback_index split: option.splits)

lemma output_callback_ids:
  "ids (fst (output_callback app frames)) = ids app"
  "next_ref (fst (output_callback app frames)) = next_ref app"
proof -
  obtain strips' res where m: "mix_strips (input_strips app) (np_zeros frames CHANNELS) = (strips', res)"
    by (cases "mix_strips (input_strips app) (np_zeros frames CHANNELS)")
  have "map (\<lambda>(r, s). (r, index s)) strips' = map (\<lambda>(r, s). (r, index s)) (input_strips app)"
    using mix_strips_ids[of "input_strips app" "np_zeros frames CHANNELS"] m by simp
  then show "ids (fst (output_callback app frames)) = ids app"
    using m by (simp add: output_callback_def ids_def)
  show "next_ref (fst (output_callback app frames)) = next_ref app"
    using m by (simp add: output_callback_def)
qed

lemma select_output_ids:
  "ids (fst (select_output i drv w)) = ids (fst w)"
  "next_ref (fst (select_output i drv w)) = next_ref (fst w)"
  using restart_output_strips[of drv
      "((fst w)\<lparr>out_combo := (out_combo (fst w))\<lparr>current_index := i\<rparr>\<rparr>, snd w)"]
  by (simp_all add: select_output_def ids_def)

lemma keys_ids: "map fst (ids app) = map fst (input_strips app)"
  by (simp add: ids_def split_def)

lemma list_remove_ids:
  "map (\<lambda>(r, s). (r, index s)) (list_remove r0 al) = list_remove r0 (map (\<lambda>(r, s). (r, index s)) al)"
  by (induction al) auto

lemma remove_input_strip_ids:
  "ids (remove_input_strip r app) =
     (if r \<in> set (map fst (ids app)) then list_remove r (ids app) else ids app)"
  "next_ref (remove_input_strip r app) = next_ref app"
proof -
  have k: "set (map fst (ids app)) = set (map fst (input_strips app))"
    by (simp add: keys_ids)
  show "ids (remove_input_strip r app) =
     (if r \<in> set (map fst (ids app)) then list_remove r (ids app) else ids app)"
    unfolding k by (simp add: remove_input_strip_def ids_def list_remove_ids)
  show "next_ref (remove_input_strip r app) = next_ref app"
    by (simp add: remove_input_strip_def)
qed

lemma close_strip_ids:
  "ids (fst (close_strip r w)) =
     (if r \<in> set (map fst (ids (fst w))) then list_remove r (ids (fst w)) else ids (fst w))"
  "next_ref (fst (close_strip r w)) = next_ref (fst w)"
proof -
  obtain app1 e1 where o: "on_strip r stop_stream w = (app1, e1)"
    by (cases "on_strip r stop_stream w")
  have i: "ids app1 = ids (fst w)" and n: "next_ref app1 = next_ref (fst w)"
    using on_strip_ids[of stop_stream r w, OF stop_stream_index] o by simp_all
  have c: "fst (close_strip r w) = remove_input_strip r app1"
    using o by (simp add: close_strip_def)
  show "ids (fst (close_strip r w)) =
      (if r \<in> set (map fst (ids (fst w))) then list_remove r (ids (fst w)) else ids (fst w))"
    unfolding c remove_input_strip_ids i ..
  show "next_ref (fst (close_strip r w)) = next_ref (fst w)"
    unfolding c remove_input_strip_ids n ..
qed

lemma add_input_strip_ids:
  "ids (add_input_strip devices app) = ids app @ [(next_ref app, length (input_strips app))]"
  "next_ref (add_input_strip devices app) = Suc (next_ref app)"
  by (simp_all add: add_input_strip_def ids_def AudioInputStrip_init_def Let_def)


lemma refs_ok_ids:
  "refs_ok app = (distinct (map fst (ids app)) \<and> (\<forall>r \<in> set (map fst (ids app)). r < next_ref app))"
  unfolding keys_ids by (simp add: refs_ok_def)

lemma map_of_ids: "map_of (ids app) r = map_option index (map_of (input_strips app) r)"
  by (simp add: ids_def map_of_map)

lemma list_remove_keys: "set (map fst (list_remove r xs)) \<subseteq> set (map fst xs)"
proof (induction xs)
  case Nil
  then show ?case by simp
next
  case (Cons p xs)
  obtain k v where p: "p = (k, v)" by (cases p)
  show ?case using Cons.IH p by (cases "k = r") auto
qed

lemma list_remove_distinct:
  assumes "distinct (map fst xs)"
  shows "distinct (map fst (list_remove r xs))"
  using assms
proof (induction xs)
  case Nil
  then show ?case by simp
next
  case (Cons p xs)
  obtain k v where p: "p = (k, v)" by (cases p)
  have "k \<notin> set (map fst (list_remove r xs))"
    using Cons.prems p list_remove_keys[of r xs] by auto
  then show ?case using Cons p by (cases "k = r") simp_all
qed

lemma list_remove_map_of:
  assumes "distinct (map fst xs)" and "map_of (list_remove r0 xs) r = Some i"
  shows "map_of xs r = Some i"
  using assms
proof (induction xs)
  case Nil
  then show ?case by simp
next
  case (Cons p xs)
  obtain k v where p: "p = (k, v)" by (cases p)
  show ?case
  proof (cases "k = r0")
    case True
    then have m: "map_of xs r = Some i" using Cons.prems(2) p by simp
    then have "(r, i) \<in> set xs" by (rule map_of_SomeD)
    then have "r \<in> fst ` set xs" by force
    then have "r \<noteq> k" using Cons.prems(1) p by auto
    then show ?thesis using m p by simp
  next
    case False
    show ?thesis
    proof (cases "r = k")
      case True
      then show ?thesis using Cons.prems(2) p False by simp
    next
      case r: False
      then have "map_of (list_remove r0 xs) r = Some i" using Cons.prems(2) p False by simp
      then have "map_of xs r = Some i" using Cons.IH Cons.prems(1) by simp
      then show ?thesis using p r by simp
    qed
  qed
qed

lemma move_slider_pair_index:
  "index (fst ((\<lambda>(s, e). (move_slider v s, e)) (x :: AudioInputStrip \<times> env))) = index (fst x)"
  by (cases x) (simp add: move_slider_index)

lemma keeps_ids_same:
  assumes "refs_ok app" and "ids app' = ids app" and "next_ref app' = next_ref app"
  shows "keeps_ids app app'"
  using assms by (simp add: keeps_ids_def refs_ok_ids)

lemma keeps_ids_add:
  assumes "refs_ok app"
  shows "keeps_ids app (add_input_strip devices app)"
proof -
  let ?n = "next_ref app"
  have d: "distinct (map fst (ids app))" and b: "\<forall>r \<in> set (map fst (ids app)). r < ?n"
    using assms by (simp_all add: refs_ok_ids)
  have f: "?n \<notin> set (map fst (ids app))"
    using b by auto
  have i: "ids (add_input_strip devices app) = ids app @ [(?n, length (input_strips app))]"
    and n: "next_ref (add_input_strip devices app) = Suc ?n"
    by (rule add_input_strip_ids)+
  have d': "distinct (map fst (ids (add_input_strip devices app)))"
    unfolding i using d f by simp
  have b': "\<forall>r \<in> set (map fst (ids (add_input_strip devices app))). r < Suc ?n"
    unfolding i using b by (simp add: less_Suc_eq)
  have ok: "refs_ok (add_input_strip devices app)"
    unfolding refs_ok_ids n using d' b' by simp
  have old: "map_of (ids app) r = Some j"
    if m: "map_of (ids (add_input_strip devices app)) r = Some j" and l: "r < ?n" for r j
  proof (cases "map_of (ids app) r")
    case None
    then have "map_of (ids (add_input_strip devices app)) r = (if r = ?n then Some (length (input_strips app)) else None)"
      unfolding i by (simp add: map_add_def)
    then show ?thesis using m l by simp
  next
    case (Some k)
    then have "map_of (ids (add_input_strip devices app)) r = Some k"
      unfolding i by (simp add: map_add_def)
    then show ?thesis using m Some by simp
  qed
  show ?thesis
    unfolding keeps_ids_def using ok old by (simp add: n)
qed

lemma keeps_ids_close:
  assumes "refs_ok (fst w)"
  shows "keeps_ids (fst w) (fst (close_strip r w))"
proof (cases "r \<in> set (map fst (ids (fst w)))")
  case False
  then show ?thesis using assms by (intro keeps_ids_same) (simp_all add: close_strip_ids)
next
  case True
  have d: "distinct (map fst (ids (fst w)))"
    and b: "\<forall>r \<in> set (map fst (ids (fst w))). r < next_ref (fst w)"
    using assms by (simp_all add: refs_ok_ids)
  have i: "ids (fst (close_strip r w)) = list_remove r (ids (fst w))"
    using True by (simp add: close_strip_ids)
  have n: "next_ref (fst (close_strip r w)) = next_ref (fst w)"
    by (rule close_strip_ids)
  have b': "\<forall>r' \<in> set (map fst (list_remove r (ids (fst w)))). r' < next_ref (fst w)"
    using b list_remove_keys[of r "ids (fst w)"] by blast
  have ok: "refs_ok (fst (close_strip r w))"
    unfolding refs_ok_ids i n using list_remove_distinct[OF d, of r] b' by simp
  have old: "map_of (ids (fst w)) r' = Some j"
    if "map_of (ids (fst (close_strip r w))) r' = Some j" for r' j
    using that list_remove_map_of[OF d, of r r' j] by (simp add: i)
  show ?thesis
    unfolding keeps_ids_def using ok old by (simp add: n)
qed

lemma step_keeps_ids:
  assumes "refs_ok (fst w)" and "step ev w = Some w'"
  shows "keeps_ids (fst w) (fst w')"
proof (cases ev)
  case (AddInput devices)
  then have "fst w' = add_input_strip devices (fst w)" using assms(2) by auto
  then show ?thesis using keeps_ids_add[OF assms(1), of devices] by simp
next
  case (RemoveInput r)
  then have "w' = close_strip r w" using assms(2) by simp
  then show ?thesis using keeps_ids_close[OF assms(1), of r] by simp
next
  case (DeviceChosen r i drv)
  then have "w' = on_strip r (select_device i drv) w" using assms(2) by simp
  then show ?thesis
    using assms(1) on_strip_ids[of "select_device i drv" r w, OF select_device_index]
    by (intro keeps_ids_same) simp_all
next
  case (SliderMoved r v)
  then have "w' = on_strip r (\<lambda>(s, e). (move_slider v s, e)) w" using assms(2) by simp
  then show ?thesis
    using assms(1) on_strip_ids[of "\<lambda>(s, e). (move_slider v s, e)" r w, OF move_slider_pair_index]
    by (intro keeps_ids_same) simp_all
next
  case (Captured r b)
  then obtain app' where c: "capture r b (fst w) = Some app'" and w': "w' = (app', snd w)"
    using assms(2) by (cases "capture r b (fst w)") simp_all
  show ?thesis using assms(1) capture_ids[OF c] w'
    by (intro keeps_ids_same) simp_all
next
  case (Played frames)
  then have "w' = (fst (output_callback (fst w) frames), snd w)" using assms(2) by simp
  then show ?thesis using assms(1) output_callback_ids[of "fst w" frames]
    by (intro keeps_ids_same) simp_all
next
  case (OutputChosen i drv)
  then have "w' = select_output i drv w" using assms(2) by simp
  then show ?thesis using assms(1) select_output_ids[of i drv w]
    by (intro keeps_ids_same) simp_all
qed

lemma keeps_ids_trans:
  assumes "keeps_ids a b" and "keeps_ids b c"
  shows "keeps_ids a c"
proof -
  have n: "next_ref a \<le> next_ref b" "next_ref b \<le> next_ref c"
    using assms by (simp_all add: keeps_ids_def)
  have "map_of (ids a) r = Some i" if m: "map_of (ids c) r = Some i" and l: "r < next_ref a" for r i
  proof -
    have "r < next_ref b" using l n(1) by simp
    then have "map_of (ids b) r = Some i" using assms(2) m by (simp add: keeps_ids_def)
    then show ?thesis using assms(1) l by (simp add: keeps_ids_def)
  qed
  then show ?thesis using assms(2) n by (simp add: keeps_ids_def)
qed

lemma run_keeps_ids:
  assumes "refs_ok (fst w)" and "run evs w = Some w'"
  shows "keeps_ids (fst w) (fst w')"
  using assms
proof (induction evs arbitrary: w)
  case Nil
  then show ?case by (simp add: keeps_ids_def)
next
  case (Cons ev evs)
  obtain w1 where s: "step ev w = Some w1" and r: "run evs w1 = Some w'"
    using Cons.prems(2) by (cases "step ev w") simp_all
  have k1: "keeps_ids (fst w) (fst w1)" using Cons.prems(1) s by (rule step_keeps_ids)
  then have "refs_ok (fst w1)" by (simp add: keeps_ids_def)
  then have k2: "keeps_ids (fst w1) (fst w')" using r by (rule Cons.IH)
  show ?case using k1 k2 by (rule keeps_ids_trans)
qed


text \<open>
  Claim C6, as the code does it. A strip gets its index when it is created, the
  number of strips registered at that moment, and keeps it: whatever happens to the
  application, a strip that is in the registry before and after has the index it had.
  The index is not kept from later strips: see the counterexample.
\<close>

theorem C6_index_stable:
  "(refs_ok app \<and> run evs (app, e) = Some (app', e') \<and>
    map_of (input_strips app) r = Some s \<and> map_of (input_strips app') r = Some s' \<longrightarrow>
      index s' = index s) \<and>
   (run evs (AudioRouterApp_init devices, env_init) = Some (app', e') \<longrightarrow> refs_ok app') \<and>
   ids (add_input_strip devices app) = ids app @ [(next_ref app, length (input_strips app))]"
proof (intro conjI impI)
  assume h: "refs_ok app \<and> run evs (app, e) = Some (app', e') \<and>
    map_of (input_strips app) r = Some s \<and> map_of (input_strips app') r = Some s'"
  then have k: "keeps_ids app app'"
    using run_keeps_ids[of "(app, e)" evs "(app', e')"] by simp
  have "(r, s) \<in> set (input_strips app)" using h by (intro map_of_SomeD) simp
  then have "r \<in> set (map fst (input_strips app))" by force
  moreover have "\<forall>r \<in> set (map fst (input_strips app)). r < next_ref app"
    using h by (simp add: refs_ok_def)
  ultimately have l: "r < next_ref app" by blast
  have "map_of (ids app') r = Some (index s')" using h by (simp add: map_of_ids)
  then have "map_of (ids app) r = Some (index s')" using k l by (simp add: keeps_ids_def)
  then show "index s' = index s" using h by (simp add: map_of_ids)
next
  assume h: "run evs (AudioRouterApp_init devices, env_init) = Some (app', e')"
  have "refs_ok (AudioRouterApp_init devices)"
    by (simp add: refs_ok_def AudioRouterApp_init_def)
  then have "keeps_ids (AudioRouterApp_init devices) app'"
    using run_keeps_ids[of "(AudioRouterApp_init devices, env_init)" evs "(app', e')"] h by simp
  then show "refs_ok app'" by (simp add: keeps_ids_def)
next
  show "ids (add_input_strip devices app) = ids app @ [(next_ref app, length (input_strips app))]"
    by (rule add_input_strip_ids)
qed

theorem C6_index_stable_witness:
  "refs_ok (add_input_strip [] (AudioRouterApp_init [])) \<and>
   run [AddInput [], SliderMoved 0 50] (add_input_strip [] (AudioRouterApp_init []), env_init) =
     Some (\<lparr>input_strips = [(0, move_slider 50 (AudioInputStrip_init [] 0)),
                             (1, AudioInputStrip_init [] 1)],
            output_stream = None, out_combo = populate_output_devices [], next_ref = 2\<rparr>, env_init) \<and>
   index (move_slider 50 (AudioInputStrip_init [] 0)) = index (AudioInputStrip_init [] 0)"
proof -
  have a: "refs_ok (add_input_strip [] (AudioRouterApp_init []))"
    by (simp add: refs_ok_def add_input_strip_def AudioRouterApp_init_def)
  have b: "run [AddInput [], SliderMoved 0 50] (add_input_strip [] (AudioRouterApp_init []), env_init) =
     Some (\<lparr>input_strips = [(0, move_slider 50 (AudioInputStrip_init [] 0)),
                             (1, AudioInputStrip_init [] 1)],
            output_stream = None, out_combo = populate_output_devices [], next_ref = 2\<rparr>, env_init)"
    by (simp add: add_input_strip_def AudioRouterApp_init_def on_strip_def)
  have c: "map_of (input_strips (add_input_strip [] (AudioRouterApp_init []))) 0 =
      Some (AudioInputStrip_init [] 0)"
    by (simp add: add_input_strip_def AudioRouterApp_init_def)
  show ?thesis
    using a b c C6_index_stable[where app = "add_input_strip [] (AudioRouterApp_init [])"
        and evs = "[AddInput [], SliderMoved 0 50]" and e = env_init and e' = env_init
        and app' = "\<lparr>input_strips = [(0, move_slider 50 (AudioInputStrip_init [] 0)),
                             (1, AudioInputStrip_init [] 1)],
            output_stream = None, out_combo = populate_output_devices [], next_ref = 2\<rparr>"
        and r = 0 and s = "AudioInputStrip_init [] 0"
        and s' = "move_slider 50 (AudioInputStrip_init [] 0)"]
    by simp
qed

text \<open>
  Against claim C6 as it is worded (an index is never used again): two strips are
  added, the first is closed, a third is added. The third gets index 1, which the
  second strip, still in the registry, has.
\<close>

theorem C6_id_reused_counterexample:
  "map_option (ids \<circ> fst)
     (run [AddInput [], AddInput [], RemoveInput 0, AddInput []] (AudioRouterApp_init [], env_init)) =
   Some [(1, 1), (2, 1)]"
  by (simp add: add_input_strip_def AudioRouterApp_init_def close_strip_def on_strip_def
      remove_input_strip_def stop_stream_def ids_def AudioInputStrip_init_def Let_def)

end
